theory Spec2Isabelle
  imports Main "HOL-Library.AList"
begin

section \<open>JavaScript values\<close>

text \<open>
  The search and detail responses are parsed JSON, so the books handled by
  \<^verbatim>\<open>src/App.tsx\<close> are arbitrary JSON values (the \<^verbatim>\<open>Book\<close> interface is erased at
  run time). An object is an association list of its own properties; numbers are
  the integers the API sends (years, page counts, cover ids). \<open>JUndefined\<close> is the
  value of a missing property.
\<close>

datatype jsval =
    JUndefined
  | JNull
  | JBool bool
  | JNum int
  | JStr string
  | JArr "jsval list"
  | JObj "(string \<times> jsval) list"

datatype js_error = TypeError

text \<open>Truthiness, as \<^verbatim>\<open>||\<close>, \<^verbatim>\<open>&&\<close> and \<^verbatim>\<open>if\<close> test it.\<close>

fun truthy :: "jsval \<Rightarrow> bool" where
  "truthy JUndefined = False"
| "truthy JNull = False"
| "truthy (JBool b) = b"
| "truthy (JNum n) = (n \<noteq> 0)"
| "truthy (JStr s) = (s \<noteq> [])"
| "truthy (JArr xs) = True"
| "truthy (JObj kvs) = True"

definition js_or :: "jsval \<Rightarrow> jsval \<Rightarrow> jsval" where
  "js_or a b = (if truthy a then a else b)"

subsection \<open>Decimal rendering of numbers\<close>

definition digit_char :: "nat \<Rightarrow> char" where
  "digit_char d = char_of (48 + d)"

fun nat_toString :: "nat \<Rightarrow> string" where
  "nat_toString n =
     (if n < 10 then [digit_char n]
      else nat_toString (n div 10) @ [digit_char (n mod 10)])"

declare nat_toString.simps [simp del]

text \<open>\<^verbatim>\<open>Number.prototype.toString\<close> on an integer.\<close>

definition toString :: "int \<Rightarrow> string" where
  "toString y =
     (if y < 0 then CHR ''-'' # nat_toString (nat (- y)) else nat_toString (nat y))"

subsection \<open>Properties\<close>

text \<open>
  The own enumerable properties of a value, in the order the object spread
  \<^verbatim>\<open>{...book}\<close> copies them: those of an object; the indexed elements of an array
  or a string; none for the other primitives.
\<close>

fun own_props :: "jsval \<Rightarrow> (string \<times> jsval) list" where
  "own_props (JObj kvs) = kvs"
| "own_props (JArr xs) = zip (map nat_toString [0..<length xs]) xs"
| "own_props (JStr s) = zip (map nat_toString [0..<length s]) (map (\<lambda>c. JStr [c]) s)"
| "own_props v = []"

text \<open>
  Reading \<^verbatim>\<open>v.k\<close>. On \<^verbatim>\<open>undefined\<close> and \<^verbatim>\<open>null\<close> it throws a TypeError; elsewhere a
  missing property reads as \<^verbatim>\<open>undefined\<close>. Properties inherited from a prototype
  are left out: none of the names the source reads (\<^verbatim>\<open>docs\<close>, \<^verbatim>\<open>key\<close>,
  \<^verbatim>\<open>number_of_pages\<close>, \<^verbatim>\<open>description\<close>, \<^verbatim>\<open>value\<close>) is one.
\<close>

fun get_prop :: "jsval \<Rightarrow> string \<Rightarrow> js_error + jsval" where
  "get_prop JUndefined k = Inl TypeError"
| "get_prop JNull k = Inl TypeError"
| "get_prop (JArr xs) k =
     (case map_of (own_props (JArr xs)) k of
        Some v \<Rightarrow> Inr v
      | None \<Rightarrow> Inr (if k = ''length'' then JNum (int (length xs)) else JUndefined))"
| "get_prop (JStr s) k =
     (case map_of (own_props (JStr s)) k of
        Some v \<Rightarrow> Inr v
      | None \<Rightarrow> Inr (if k = ''length'' then JNum (int (length s)) else JUndefined))"
| "get_prop v k =
     (case map_of (own_props v) k of Some x \<Rightarrow> Inr x | None \<Rightarrow> Inr JUndefined)"

text \<open>Optional chaining \<^verbatim>\<open>v?.k\<close>: \<^verbatim>\<open>undefined\<close> when \<open>v\<close> is \<^verbatim>\<open>undefined\<close> or \<^verbatim>\<open>null\<close>.\<close>

definition opt_prop :: "jsval \<Rightarrow> string \<Rightarrow> jsval" where
  "opt_prop v k = (case get_prop v k of Inl e \<Rightarrow> JUndefined | Inr x \<Rightarrow> x)"

text \<open>
  A property initialiser after a spread in an object literal: it overwrites the
  property where the spread already defined it and adds it at the end otherwise.
\<close>

definition set_prop :: "string \<Rightarrow> jsval \<Rightarrow> (string \<times> jsval) list \<Rightarrow> (string \<times> jsval) list" where
  "set_prop k v kvs = AList.update k v kvs"

section \<open>The fetch pipeline\<close>

text \<open>How an \<^verbatim>\<open>axios.get\<close> settles: it rejects, or resolves with a response whose
  \<^verbatim>\<open>data\<close> is the parsed body.\<close>

datatype settled = Rejected | Resolved jsval

text \<open>
  The network as one run of \<^verbatim>\<open>fetchBooks\<close> sees it. \<open>search\<close> is the outcome of the
  search request (\<open>None\<close>: it never settles). \<open>detail i\<close> is the outcome of the
  detail request issued for the \<open>i\<close>-th book, and \<open>completion\<close> lists the
  detail requests in the order in which they settle; a request that is not in the
  list never settles.
\<close>

record network =
  search :: "settled option"
  detail :: "nat \<Rightarrow> settled"
  completion :: "nat list"

definition no_description :: string where
  "no_description = ''No description available.''"

text \<open>
  \<^verbatim>\<open>detailsResponse.data.description?.value || detailsResponse.data.description
     || 'No description available.'\<close>, given \<open>d\<close>, the value of \<^verbatim>\<open>data.description\<close>.
\<close>

definition normalize_description :: "jsval \<Rightarrow> jsval" where
  "normalize_description d = js_or (js_or (opt_prop d ''value'') d) (JStr no_description)"

text \<open>
  The object literal of lines 42-46, given the response's \<^verbatim>\<open>data\<close>. Reading a
  property of \<^verbatim>\<open>data\<close> throws when \<^verbatim>\<open>data\<close> is \<^verbatim>\<open>null\<close> or \<^verbatim>\<open>undefined\<close>.
\<close>

definition merge_details :: "jsval \<Rightarrow> jsval \<Rightarrow> js_error + jsval" where
  "merge_details book data =
     (case get_prop data ''number_of_pages'' of
        Inl e \<Rightarrow> Inl e
      | Inr pages \<Rightarrow>
          (case get_prop data ''description'' of
             Inl e \<Rightarrow> Inl e
           | Inr d \<Rightarrow>
               Inr (JObj (set_prop ''description'' (normalize_description d)
                           (set_prop ''number_of_pages_median'' pages (own_props book))))))"

text \<open>
  The value the promise of the async callback of \<^verbatim>\<open>fetchedBooks.map\<close> resolves
  with for the \<open>i\<close>-th book, once its request has settled. Everything is inside
  the inner \<^verbatim>\<open>try\<close>: a TypeError from \<^verbatim>\<open>book.key\<close> or from reading \<^verbatim>\<open>data\<close>, and a
  rejected request, all end in \<^verbatim>\<open>return book\<close>.
\<close>

definition enrich :: "network \<Rightarrow> nat \<Rightarrow> jsval \<Rightarrow> jsval" where
  "enrich net i book =
     (case get_prop book ''key'' of
        Inl e \<Rightarrow> book
      | Inr key \<Rightarrow>
          (case detail net i of
             Rejected \<Rightarrow> book
           | Resolved data \<Rightarrow>
               (case merge_details book data of Inl e \<Rightarrow> book | Inr b \<Rightarrow> b)))"

text \<open>
  \<^verbatim>\<open>response.data.docs.slice(0, 10)\<close> followed by \<^verbatim>\<open>.map\<close>: only an array has both
  methods (a string has \<^verbatim>\<open>slice\<close> but no \<^verbatim>\<open>map\<close>), anything else throws a
  TypeError.
\<close>

definition fetched_books :: "jsval \<Rightarrow> js_error + jsval list" where
  "fetched_books data =
     (case get_prop data ''docs'' of
        Inl e \<Rightarrow> Inl e
      | Inr docs \<Rightarrow> (case docs of JArr xs \<Rightarrow> Inr (take 10 xs) | _ \<Rightarrow> Inl TypeError))"

text \<open>
  \<^verbatim>\<open>Promise.all\<close> over promises that never reject. Promise \<open>i\<close> resolves with
  \<open>vs ! i\<close>; \<open>order\<close> is the order in which the promises settle. Each settlement
  stores its value in slot \<open>i\<close> of the result array (a second settlement of the
  same promise, or one of no promise of the array, does nothing); the combined
  promise resolves with the array once every slot is filled, and never when a slot
  stays empty (\<open>None\<close>).
\<close>

fun settle_all :: "nat list \<Rightarrow> 'a list \<Rightarrow> 'a option list \<Rightarrow> 'a option list" where
  "settle_all [] vs slots = slots"
| "settle_all (i # order) vs slots =
     settle_all order vs
       (if i < length slots \<and> slots ! i = None then slots[i := Some (vs ! i)] else slots)"

definition promise_all :: "nat list \<Rightarrow> 'a list \<Rightarrow> 'a list option" where
  "promise_all order vs =
     (let slots = settle_all order vs (replicate (length vs) None)
      in if list_all (\<lambda>x. x \<noteq> None) slots then Some (map the slots) else None)"

text \<open>
  The callbacks whose \<^verbatim>\<open>book.key\<close> throws issue no request: their promises are
  settled when \<^verbatim>\<open>map\<close> returns, ahead of every request.
\<close>

definition settled_at_once :: "jsval list \<Rightarrow> nat list" where
  "settled_at_once bs = filter (\<lambda>i. get_prop (bs ! i) ''key'' = Inl TypeError) [0..<length bs]"

text \<open>
  Every request that is issued for the books \<open>bs\<close> settles, when the requests
  settle in the order \<open>order\<close>.
\<close>

definition requests_settle :: "nat list \<Rightarrow> jsval list \<Rightarrow> bool" where
  "requests_settle order bs = list_all (\<lambda>i. i \<in> set (settled_at_once bs @ order)) [0..<length bs]"

datatype run_outcome = Published "jsval list" | Failed | Unsettled

text \<open>
  The outer \<^verbatim>\<open>try\<close> block of \<^verbatim>\<open>fetchBooks\<close> (lines 35-56): \<open>Published bs\<close> when it
  reaches \<^verbatim>\<open>setBooks(bs)\<close>, \<open>Failed\<close> when it ends in the \<^verbatim>\<open>catch\<close>, \<open>Unsettled\<close>
  when an \<^verbatim>\<open>await\<close> never returns.
\<close>

definition run_pipeline :: "network \<Rightarrow> run_outcome" where
  "run_pipeline net =
     (case search net of
        None \<Rightarrow> Unsettled
      | Some Rejected \<Rightarrow> Failed
      | Some (Resolved data) \<Rightarrow>
          (case fetched_books data of
             Inl e \<Rightarrow> Failed
           | Inr fetchedBooks \<Rightarrow>
               (case promise_all (settled_at_once fetchedBooks @ completion net)
                       (map (\<lambda>i. enrich net i (fetchedBooks ! i)) [0..<length fetchedBooks]) of
                  None \<Rightarrow> Unsettled
                | Some booksWithDetails \<Rightarrow> Published booksWithDetails)))"

text \<open>
  The network conditions under which a run comes to an end: the search request
  settles, and so does every detail request that is issued.
\<close>

definition network_settles :: "network \<Rightarrow> bool" where
  "network_settles net =
     (case search net of
        None \<Rightarrow> False
      | Some Rejected \<Rightarrow> True
      | Some (Resolved data) \<Rightarrow>
          (case fetched_books data of
             Inl e \<Rightarrow> True
           | Inr bs \<Rightarrow> requests_settle (completion net) bs))"

section \<open>The component state\<close>

text \<open>
  The eight \<^verbatim>\<open>useState\<close> cells of \<^verbatim>\<open>App\<close>. \<open>'r\<close> is the identity of a rendered
  book: \<^verbatim>\<open>===\<close> compares objects by reference, and \<^verbatim>\<open>selectedBook\<close> holds the
  reference of the clicked list item or \<^verbatim>\<open>null\<close>.
\<close>

record 'r app_state =
  genre :: string
  year :: string
  books :: "jsval list"
  loading :: bool
  error :: "string option"
  genreSuggestions :: "string list"
  yearSuggestions :: "int list"
  selectedBook :: "'r option"

definition initial_state :: "'r app_state" where
  "initial_state =
     \<lparr>genre = [], year = [], books = [], loading = False, error = None,
      genreSuggestions = [], yearSuggestions = [], selectedBook = None\<rparr>"

definition fetch_error_message :: string where
  "fetch_error_message = ''An error occurred while fetching books. Please try again.''"

text \<open>\<^verbatim>\<open>fetchBooks\<close> up to its first \<^verbatim>\<open>await\<close> (lines 33-34).\<close>

definition fetchBooks_start :: "'r app_state \<Rightarrow> 'r app_state" where
  "fetchBooks_start s = s\<lparr>loading := True, error := None\<rparr>"

text \<open>
  The state updates with which a run ends (lines 53, 55, 57), applied to the state
  of the moment; a run that never settles makes none.
\<close>

fun fetchBooks_finish :: "run_outcome \<Rightarrow> 'r app_state \<Rightarrow> 'r app_state" where
  "fetchBooks_finish (Published bs) s = s\<lparr>books := bs, loading := False\<rparr>"
| "fetchBooks_finish Failed s = s\<lparr>error := Some fetch_error_message, loading := False\<rparr>"
| "fetchBooks_finish Unsettled s = s"

text \<open>One run of \<^verbatim>\<open>fetchBooks\<close> with nothing else happening in between.\<close>

definition fetchBooks :: "network \<Rightarrow> 'r app_state \<Rightarrow> 'r app_state" where
  "fetchBooks net s = fetchBooks_finish (run_pipeline net) (fetchBooks_start s)"

section \<open>Input fields, suggestions and selection\<close>

definition popularGenres :: "string list" where
  "popularGenres =
     [''Fiction'', ''Fantasy'', ''Science Fiction'', ''Mystery'', ''Thriller'', ''Romance'',
      ''Historical Fiction'', ''Non-fiction'', ''Biography'', ''Self-help'', ''Horror'']"

text \<open>\<open>currentYear\<close> is \<^verbatim>\<open>new Date().getFullYear()\<close> at load time.\<close>

definition recentYears :: "int \<Rightarrow> int list" where
  "recentYears currentYear = map (\<lambda>i. currentYear - int i) [0..<10]"

text \<open>
  \<^verbatim>\<open>toLowerCase\<close> on the letters \<^verbatim>\<open>A\<close> to \<^verbatim>\<open>Z\<close>; every other character is left as
  it is.
\<close>

definition lower_char :: "char \<Rightarrow> char" where
  "lower_char c =
     (let n = (of_char c :: nat) in if 65 \<le> n \<and> n \<le> 90 then char_of (n + 32) else c)"

definition toLowerCase :: "string \<Rightarrow> string" where
  "toLowerCase s = map lower_char s"

text \<open>\<^verbatim>\<open>s.includes(t)\<close>: \<open>t\<close> occurs in \<open>s\<close> as a contiguous run.\<close>

fun includes_str :: "string \<Rightarrow> string \<Rightarrow> bool" where
  "includes_str [] t = (t = [])"
| "includes_str (c # cs) t = (take (length t) (c # cs) = t \<or> includes_str cs t)"

definition handleGenreChange :: "string \<Rightarrow> 'r app_state \<Rightarrow> 'r app_state" where
  "handleGenreChange v s =
     s\<lparr>genre := v,
       genreSuggestions :=
         (if v \<noteq> [] then filter (\<lambda>g. includes_str (toLowerCase g) (toLowerCase v)) popularGenres
          else [])\<rparr>"

definition handleYearChange :: "int \<Rightarrow> string \<Rightarrow> 'r app_state \<Rightarrow> 'r app_state" where
  "handleYearChange currentYear v s =
     s\<lparr>year := v,
       yearSuggestions :=
         (if v \<noteq> [] then filter (\<lambda>y. includes_str (toString y) v) (recentYears currentYear)
          else [])\<rparr>"

definition selectGenre :: "string \<Rightarrow> 'r app_state \<Rightarrow> 'r app_state" where
  "selectGenre selectedGenre s = s\<lparr>genre := selectedGenre, genreSuggestions := []\<rparr>"

definition selectYear :: "int \<Rightarrow> 'r app_state \<Rightarrow> 'r app_state" where
  "selectYear selectedYear s = s\<lparr>year := toString selectedYear, yearSuggestions := []\<rparr>"

definition handleBookClick :: "'r \<Rightarrow> 'r app_state \<Rightarrow> 'r app_state" where
  "handleBookClick book s =
     s\<lparr>selectedBook := (if Some book = selectedBook s then None else Some book)\<rparr>"

subsection \<open>Containment without regard to case, as the specification words it\<close>

text \<open>
  Two characters are the same letter when they are equal or are the upper-case and
  the lower-case form of one letter \<^verbatim>\<open>A\<close> to \<^verbatim>\<open>Z\<close>.
\<close>

definition same_letter :: "char \<Rightarrow> char \<Rightarrow> bool" where
  "same_letter a b =
     (let m = (of_char a :: nat); n = (of_char b :: nat)
      in a = b \<or> (65 \<le> m \<and> m \<le> 90 \<and> n = m + 32) \<or> (65 \<le> n \<and> n \<le> 90 \<and> m = n + 32))"

text \<open>
  \<open>text\<close> is a case-insensitive substring of \<open>cand\<close>: at some position of
  \<open>cand\<close> there is a run of the length of \<open>text\<close> that agrees with \<open>text\<close>
  letter by letter.
\<close>

definition ci_substring_spec :: "string \<Rightarrow> string \<Rightarrow> bool" where
  "ci_substring_spec text cand =
     list_ex (\<lambda>i. list_all2 same_letter text (take (length text) (drop i cand)))
       [0..<Suc (length cand)]"

text \<open>A character that is neither an upper-case nor a lower-case letter.\<close>

definition caseless :: "char \<Rightarrow> bool" where
  "caseless c = (let n = (of_char c :: nat) in \<not> (65 \<le> n \<and> n \<le> 90) \<and> \<not> (97 \<le> n \<and> n \<le> 122))"

text \<open>The list item that is rendered as selected (\<^verbatim>\<open>selectedBook === book\<close>, line 166).\<close>

definition is_selected :: "'r \<Rightarrow> 'r app_state \<Rightarrow> bool" where
  "is_selected book s = (selectedBook s = Some book)"

subsection \<open>Events and the effect\<close>

datatype 'r event =
    GenreChange string
  | YearChange string
  | SelectGenre string
  | SelectYear int
  | BookClick 'r
  | Submit

text \<open>The state updates an event handler makes before it returns; the button runs
  \<^verbatim>\<open>fetchBooks\<close>, which returns at its first \<^verbatim>\<open>await\<close>.\<close>

fun handle :: "int \<Rightarrow> 'r event \<Rightarrow> 'r app_state \<Rightarrow> 'r app_state" where
  "handle cy (GenreChange v) s = handleGenreChange v s"
| "handle cy (YearChange v) s = handleYearChange cy v s"
| "handle cy (SelectGenre g) s = selectGenre g s"
| "handle cy (SelectYear y) s = selectYear y s"
| "handle cy (BookClick b) s = handleBookClick b s"
| "handle cy Submit s = fetchBooks_start s"

text \<open>
  \<^verbatim>\<open>useEffect(() => { if (genre && year) fetchBooks(); }, [genre, year])\<close> (lines
  60-64): after a render React runs the effect when a dependency differs from its
  value at the previous render, and the effect calls \<^verbatim>\<open>fetchBooks\<close> when both
  fields are truthy, that is non-empty.
\<close>

definition effect_fetches :: "'r app_state \<Rightarrow> 'r app_state \<Rightarrow> bool" where
  "effect_fetches prev cur =
     ((genre cur \<noteq> genre prev \<or> year cur \<noteq> year prev) \<and> genre cur \<noteq> [] \<and> year cur \<noteq> [])"

text \<open>Whether event \<open>ev\<close>, arriving in state \<open>s\<close>, starts a run of \<^verbatim>\<open>fetchBooks\<close>.\<close>

definition fetch_triggered :: "int \<Rightarrow> 'r event \<Rightarrow> 'r app_state \<Rightarrow> bool" where
  "fetch_triggered cy ev s =
     (case ev of Submit \<Rightarrow> True | _ \<Rightarrow> effect_fetches s (handle cy ev s))"

section \<open>Joining the detail requests\<close>

lemma settle_all_length [simp]: "length (settle_all order vs slots) = length slots"
  by (induction order arbitrary: slots) auto

lemma settle_all_keeps:
  "i < length slots \<Longrightarrow> slots ! i \<noteq> None \<Longrightarrow> settle_all order vs slots ! i = slots ! i"
proof (induction order arbitrary: slots)
  case Nil
  then show ?case by simp
next
  case (Cons j order)
  then show ?case by (cases "i = j") auto
qed

lemma settle_all_fills:
  "i \<in> set order \<Longrightarrow> i < length slots \<Longrightarrow> settle_all order vs slots ! i \<noteq> None"
proof (induction order arbitrary: slots)
  case Nil
  then show ?case by simp
next
  case (Cons j order)
  let ?s = "if j < length slots \<and> slots ! j = None then slots[j := Some (vs ! j)] else slots"
  have len: "i < length ?s" using Cons.prems(2) by simp
  show ?case
  proof (cases "?s ! i = None")
    case False
    with len have "settle_all order vs ?s ! i = ?s ! i" by (rule settle_all_keeps)
    with False show ?thesis by simp
  next
    case True
    with Cons.prems(2) have "i \<noteq> j" by (auto split: if_splits)
    with Cons.prems(1) have "i \<in> set order" by simp
    from Cons.IH [OF this len] show ?thesis by simp
  qed
qed

lemma settle_all_values:
  "\<forall>i<length slots. slots ! i = None \<or> slots ! i = Some (vs ! i) \<Longrightarrow> i < length slots \<Longrightarrow>
   settle_all order vs slots ! i = None \<or> settle_all order vs slots ! i = Some (vs ! i)"
proof (induction order arbitrary: slots)
  case Nil
  then show ?case by simp
next
  case (Cons j order)
  let ?s = "if j < length slots \<and> slots ! j = None then slots[j := Some (vs ! j)] else slots"
  have "\<forall>i<length ?s. ?s ! i = None \<or> ?s ! i = Some (vs ! i)"
    using Cons.prems(1) by (auto simp: nth_list_update)
  moreover have "i < length ?s" using Cons.prems(2) by simp
  ultimately show ?case using Cons.IH [of ?s] by simp
qed

lemma settle_all_unfilled:
  "i \<notin> set order \<Longrightarrow> i < length slots \<Longrightarrow> slots ! i = None \<Longrightarrow> settle_all order vs slots ! i = None"
  by (induction order arbitrary: slots) auto

lemma promise_all_resolves:
  assumes "{0..<length vs} \<subseteq> set order"
  shows "promise_all order vs = Some vs"
proof -
  let ?slots = "settle_all order vs (replicate (length vs) None)"
  have len: "length ?slots = length vs" by simp
  have filled: "?slots ! i \<noteq> None" if "i < length vs" for i
    using that assms by (intro settle_all_fills) auto
  have val: "?slots ! i = Some (vs ! i)" if "i < length vs" for i
    using settle_all_values [of "replicate (length vs) None" vs i order] filled [OF that] that
    by simp
  have all: "list_all (\<lambda>x. x \<noteq> None) ?slots"
    unfolding list_all_length using filled len by simp
  have "map the ?slots = vs"
    by (rule nth_equalityI) (simp_all add: val)
  with all show ?thesis by (simp add: promise_all_def Let_def)
qed

lemma promise_all_pending:
  assumes "i < length vs" "i \<notin> set order"
  shows "promise_all order vs = None"
proof -
  let ?slots = "settle_all order vs (replicate (length vs) None)"
  have "?slots ! i = None" using assms by (intro settle_all_unfilled) auto
  then have "\<not> list_all (\<lambda>x. x \<noteq> None) ?slots"
    unfolding list_all_length using assms(1) by auto
  then show ?thesis by (simp add: promise_all_def Let_def)
qed

section \<open>Enrichment of one book\<close>

lemma enrich_completion [simp]: "enrich (net\<lparr>completion := order\<rparr>) i book = enrich net i book"
  by (simp add: enrich_def split: sum.splits)

lemma get_prop_own:
  assumes "get_prop book ''key'' = Inr kv" and "k \<noteq> ''length''"
  shows "get_prop book k = (case map_of (own_props book) k of Some x \<Rightarrow> Inr x | None \<Rightarrow> Inr JUndefined)"
  using assms by (cases book) (auto split: option.splits)

lemma get_prop_set_prop:
  "get_prop (JObj (set_prop k v kvs)) k' = (if k' = k then Inr v else get_prop (JObj kvs) k')"
  by (simp add: set_prop_def update_conv')

lemma merge_details_Inr:
  assumes "merge_details book data = Inr b"
  obtains pages d where "get_prop data ''number_of_pages'' = Inr pages"
    and "get_prop data ''description'' = Inr d"
    and "b = JObj (set_prop ''description'' (normalize_description d)
                    (set_prop ''number_of_pages_median'' pages (own_props book)))"
  using assms by (auto simp: merge_details_def split: sum.splits)

lemma merge_details_other_props:
  assumes "merge_details book data = Inr b" and "get_prop book ''key'' = Inr kv"
    and "k \<noteq> ''number_of_pages_median''" and "k \<noteq> ''description''" and "k \<noteq> ''length''"
  shows "get_prop b k = get_prop book k"
proof -
  from assms(1) obtain pages d where
    b: "b = JObj (set_prop ''description'' (normalize_description d)
                    (set_prop ''number_of_pages_median'' pages (own_props book)))"
    by (rule merge_details_Inr)
  have "get_prop b k = get_prop (JObj (own_props book)) k"
    unfolding b using assms(3,4) by (simp only: get_prop_set_prop if_False)
  also have "\<dots> = get_prop book k"
    using get_prop_own [OF assms(2,5)] by simp
  finally show ?thesis .
qed

lemma enrich_other_props:
  assumes "k \<noteq> ''number_of_pages_median''" and "k \<noteq> ''description''" and "k \<noteq> ''length''"
  shows "get_prop (enrich net i book) k = get_prop book k"
proof (cases "get_prop book ''key''")
  case (Inl e)
  then show ?thesis by (simp add: enrich_def)
next
  case (Inr kv)
  show ?thesis
  proof (cases "detail net i")
    case Rejected
    with Inr show ?thesis by (simp add: enrich_def)
  next
    case (Resolved data)
    show ?thesis
    proof (cases "merge_details book data")
      case (Inl e)
      with Inr Resolved show ?thesis by (simp add: enrich_def)
    next
      case b: (Inr b)
      with Inr Resolved have "enrich net i book = b" by (simp add: enrich_def)
      with merge_details_other_props [OF b Inr assms] show ?thesis by simp
    qed
  qed
qed

lemma nat_toString_digits:
  "c \<in> set (nat_toString n) \<Longrightarrow> 48 \<le> (of_char c :: nat) \<and> (of_char c :: nat) \<le> 57"
proof (induction n rule: nat_toString.induct)
  case (1 n)
  show ?case
  proof (cases "n < 10")
    case True
    with "1.prems" have "c = digit_char n" by (simp add: nat_toString.simps [of n])
    with True show ?thesis by (simp add: digit_char_def)
  next
    case False
    with "1.prems" have "c \<in> set (nat_toString (n div 10)) \<or> c = digit_char (n mod 10)"
      by (auto simp: nat_toString.simps [of n])
    then show ?thesis
    proof
      assume "c \<in> set (nat_toString (n div 10))"
      with False show ?thesis by (simp add: "1.IH")
    next
      have "n mod 10 < 10" by simp
      moreover assume "c = digit_char (n mod 10)"
      ultimately show ?thesis by (simp add: digit_char_def)
    qed
  qed
qed

lemma map_of_indices_None:
  assumes "c \<in> set k" and "(of_char c :: nat) < 48 \<or> 57 < (of_char c :: nat)"
  shows "map_of (zip (map nat_toString ns) ys) k = None"
proof -
  have "k \<notin> set (map nat_toString ns)"
  proof
    assume "k \<in> set (map nat_toString ns)"
    then obtain n where "k = nat_toString n" by auto
    with assms(1) nat_toString_digits [of c n] assms(2) show False by auto
  qed
  then have "k \<notin> fst ` set (zip (map nat_toString ns) ys)"
    by (auto dest: set_zip_leftD)
  then show ?thesis by (simp add: map_of_eq_None_iff)
qed

lemma get_prop_JStr_value [simp]: "get_prop (JStr s) ''value'' = Inr JUndefined"
proof -
  have none: "map_of (zip (map nat_toString [0..<length s]) (map (\<lambda>c. JStr [c]) s)) ''value'' = None"
    by (rule map_of_indices_None [of "CHR ''v''"]) simp_all
  show ?thesis unfolding get_prop.simps own_props.simps none by simp
qed

lemma get_prop_total:
  "get_prop v k = Inr x \<Longrightarrow> \<exists>y. get_prop v k' = Inr y"
  by (cases v) (auto split: option.splits)

lemma enrich_resolved:
  assumes "get_prop book ''key'' = Inr kv" and "detail net i = Resolved data"
    and "get_prop data ''number_of_pages'' = Inr pages"
    and "get_prop data ''description'' = Inr d"
  shows "enrich net i book =
     JObj (set_prop ''description'' (normalize_description d)
            (set_prop ''number_of_pages_median'' pages (own_props book)))"
  using assms by (simp add: enrich_def merge_details_def)

lemma enrich_rejected: "detail net i = Rejected \<Longrightarrow> enrich net i book = book"
  by (simp add: enrich_def split: sum.splits)

text \<open>
  Claim C9. After a detail request that resolved, the item's
  \<^verbatim>\<open>number_of_pages_median\<close> is whatever reading \<^verbatim>\<open>number_of_pages\<close> of the detail
  payload gives, \<^verbatim>\<open>undefined\<close> included, whatever the summary carried.
\<close>

theorem enrichment_overwrites_page_count:
  assumes "get_prop book ''key'' = Inr kv"
    and "detail net i = Resolved data"
    and "get_prop data ''number_of_pages'' = Inr pages"
  shows "get_prop (enrich net i book) ''number_of_pages_median'' = Inr pages"
proof -
  from get_prop_total [OF assms(3)] obtain d where "get_prop data ''description'' = Inr d"
    by blast
  with assms have "enrich net i book =
     JObj (set_prop ''description'' (normalize_description d)
            (set_prop ''number_of_pages_median'' pages (own_props book)))"
    by (rule enrich_resolved)
  then show ?thesis by (simp add: get_prop_set_prop del: get_prop.simps)
qed

text \<open>
  A summary with a page count of 320 and a detail payload without
  \<^verbatim>\<open>number_of_pages\<close>: the page count of the enriched item is \<^verbatim>\<open>undefined\<close>.
\<close>

theorem enrichment_overwrites_page_count_witness:
  "get_prop (JObj [(''key'', JStr ''/works/A''), (''number_of_pages_median'', JNum 320)])
     ''number_of_pages_median'' = Inr (JNum 320)
   \<and> get_prop (JObj [(''title'', JStr ''A'')]) ''number_of_pages'' = Inr JUndefined
   \<and> get_prop
       (enrich \<lparr>search = None, detail = (\<lambda>i. Resolved (JObj [(''title'', JStr ''A'')])), completion = []\<rparr> 0
         (JObj [(''key'', JStr ''/works/A''), (''number_of_pages_median'', JNum 320)]))
       ''number_of_pages_median'' = Inr JUndefined"
proof -
  let ?book = "JObj [(''key'', JStr ''/works/A''), (''number_of_pages_median'', JNum 320)]"
  let ?data = "JObj [(''title'', JStr ''A'')]"
  let ?net = "\<lparr>search = None, detail = (\<lambda>i. Resolved ?data), completion = []\<rparr>"
  have 1: "get_prop ?book ''key'' = Inr (JStr ''/works/A'')" by simp
  have 2: "detail ?net 0 = Resolved ?data" by simp
  have 3: "get_prop ?data ''number_of_pages'' = Inr JUndefined" by simp
  from enrichment_overwrites_page_count [OF 1 2 3] 3 show ?thesis by simp
qed

text \<open>
  Claim C3 says that a plain string description \<open>s\<close> is normalised to \<open>s\<close> for
  every \<open>s\<close>. The empty string is falsy, so \<^verbatim>\<open>||\<close> passes over it and the
  description becomes the sentinel.
\<close>

theorem empty_description_counterexample:
  "normalize_description (JStr '''') = JStr ''No description available.''
   \<and> normalize_description (JStr '''') \<noteq> JStr ''''
   \<and> enrich \<lparr>search = None, detail = (\<lambda>i. Resolved (JObj [(''description'', JStr '''')])),
               completion = []\<rparr> 0
         (JObj [(''key'', JStr ''/works/A'')])
       = JObj [(''key'', JStr ''/works/A''), (''number_of_pages_median'', JUndefined),
               (''description'', JStr ''No description available.'')]"
  by (simp add: normalize_description_def js_or_def opt_prop_def no_description_def
      enrich_def merge_details_def set_prop_def)

text \<open>
  Claim C3, amended. After a detail request that resolved, the item's description
  is the normalised \<^verbatim>\<open>description\<close> of the payload, and normalisation maps a
  non-empty string \<open>s\<close> to \<open>s\<close>, a wrapped value object whose \<^verbatim>\<open>value\<close> is a
  non-empty string \<open>s\<close> to \<open>s\<close>, and an absent description, as well as the empty
  string, to the sentinel.
\<close>

theorem description_normalized:
  assumes "get_prop book ''key'' = Inr kv"
    and "detail net i = Resolved data"
    and "get_prop data ''description'' = Inr d"
  shows "get_prop (enrich net i book) ''description'' = Inr (normalize_description d)
      \<and> (s \<noteq> [] \<longrightarrow> normalize_description (JStr s) = JStr s)
      \<and> (s \<noteq> [] \<longrightarrow> map_of kvs ''value'' = Some (JStr s) \<longrightarrow> normalize_description (JObj kvs) = JStr s)
      \<and> normalize_description JUndefined = JStr no_description
      \<and> normalize_description (JStr []) = JStr no_description"
proof -
  from get_prop_total [OF assms(3)] obtain p where "get_prop data ''number_of_pages'' = Inr p"
    by blast
  with assms(1,2) have "enrich net i book =
     JObj (set_prop ''description'' (normalize_description d)
            (set_prop ''number_of_pages_median'' p (own_props book)))"
    using assms(3) by (rule enrich_resolved)
  then have "get_prop (enrich net i book) ''description'' = Inr (normalize_description d)"
    by (simp add: get_prop_set_prop del: get_prop.simps)
  then show ?thesis
    by (simp add: normalize_description_def js_or_def opt_prop_def del: get_prop.simps(4))
qed

text \<open>A payload with \<^verbatim>\<open>description: {value: "text"}\<close>.\<close>

theorem description_normalized_witness:
  "get_prop
     (enrich \<lparr>search = None,
              detail = (\<lambda>i. Resolved (JObj [(''description'', JObj [(''value'', JStr ''text'')])])),
              completion = []\<rparr> 0
        (JObj [(''key'', JStr ''/works/A'')]))
     ''description'' = Inr (JStr ''text'')
   \<and> normalize_description (JStr ''text'') = JStr ''text''
   \<and> normalize_description (JObj [(''value'', JStr ''text'')]) = JStr ''text''"
proof -
  let ?book = "JObj [(''key'', JStr ''/works/A'')]"
  let ?d = "JObj [(''value'', JStr ''text'')]"
  let ?data = "JObj [(''description'', ?d)]"
  let ?net = "\<lparr>search = None, detail = (\<lambda>i. Resolved ?data), completion = []\<rparr>"
  have 1: "get_prop ?book ''key'' = Inr (JStr ''/works/A'')" by simp
  have 2: "detail ?net 0 = Resolved ?data" by simp
  have 3: "get_prop ?data ''description'' = Inr ?d" by simp
  from description_normalized [OF 1 2 3, of "''text''" "[(''value'', JStr ''text'')]"]
  show ?thesis by simp
qed

section \<open>Runs of the pipeline\<close>

lemma fetched_books_docs:
  "get_prop data ''docs'' = Inr (JArr docs) \<Longrightarrow> fetched_books data = Inr (take 10 docs)"
  by (simp add: fetched_books_def)

lemma run_pipeline_published:
  assumes "search net = Some (Resolved data)"
    and "fetched_books data = Inr bs"
    and "requests_settle (completion net) bs"
  shows "run_pipeline net = Published (map (\<lambda>i. enrich net i (bs ! i)) [0..<length bs])"
proof -
  let ?vs = "map (\<lambda>i. enrich net i (bs ! i)) [0..<length bs]"
  have "{0..<length ?vs} \<subseteq> set (settled_at_once bs @ completion net)"
    using assms(3) by (auto simp: requests_settle_def list_all_iff)
  then have "promise_all (settled_at_once bs @ completion net) ?vs = Some ?vs"
    by (rule promise_all_resolves)
  with assms(1,2) show ?thesis by (simp add: run_pipeline_def)
qed

text \<open>
  Claim C1. When the search resolves with a \<^verbatim>\<open>docs\<close> array and every request issued
  settles, the run publishes one item for each of the first 10 entries of \<^verbatim>\<open>docs\<close>
  and no other: item \<open>i\<close> is the enrichment of entry \<open>i\<close> and carries its \<^verbatim>\<open>key\<close>.
  The list is the same for every order in which the detail requests settle.
\<close>

theorem fetch_order_preserved:
  assumes "search net = Some (Resolved data)"
    and "get_prop data ''docs'' = Inr (JArr docs)"
    and "requests_settle order (take 10 docs)"
  shows "run_pipeline (net\<lparr>completion := order\<rparr>) =
           Published (map (\<lambda>i. enrich net i (docs ! i)) [0..<min 10 (length docs)])
       \<and> books (fetchBooks (net\<lparr>completion := order\<rparr>) s) =
           map (\<lambda>i. enrich net i (docs ! i)) [0..<min 10 (length docs)]
       \<and> list_all (\<lambda>i. get_prop (enrich net i (docs ! i)) ''key'' = get_prop (docs ! i) ''key'')
           [0..<min 10 (length docs)]"
proof -
  let ?net = "net\<lparr>completion := order\<rparr>"
  let ?bs = "take 10 docs"
  have fb: "fetched_books data = Inr ?bs" using assms(2) by (rule fetched_books_docs)
  have "run_pipeline ?net = Published (map (\<lambda>i. enrich ?net i (?bs ! i)) [0..<length ?bs])"
    using assms(1,3) fb by (intro run_pipeline_published) simp_all
  moreover have "map (\<lambda>i. enrich ?net i (?bs ! i)) [0..<length ?bs] =
      map (\<lambda>i. enrich net i (docs ! i)) [0..<min 10 (length docs)]"
    by (simp add: min.commute)
  ultimately have run: "run_pipeline ?net =
      Published (map (\<lambda>i. enrich net i (docs ! i)) [0..<min 10 (length docs)])"
    by simp
  then have "books (fetchBooks ?net s) = map (\<lambda>i. enrich net i (docs ! i)) [0..<min 10 (length docs)]"
    by (simp add: fetchBooks_def)
  moreover have "list_all (\<lambda>i. get_prop (enrich net i (docs ! i)) ''key'' = get_prop (docs ! i) ''key'')
           [0..<min 10 (length docs)]"
    by (simp add: list_all_iff enrich_other_props)
  ultimately show ?thesis using run by simp
qed

text \<open>
  Three results A, B, C; the detail request of C settles first and that of B is
  rejected. The list comes out as A, B, C.
\<close>

theorem fetch_order_preserved_witness:
  "run_pipeline
     \<lparr>search = Some (Resolved (JObj [(''docs'', JArr
        [JObj [(''key'', JStr ''/works/A''), (''title'', JStr ''A'')],
         JObj [(''key'', JStr ''/works/B''), (''title'', JStr ''B'')],
         JObj [(''key'', JStr ''/works/C''), (''title'', JStr ''C'')]])])),
      detail = (\<lambda>i. if i = 1 then Rejected else Resolved (JObj [(''number_of_pages'', JNum 100)])),
      completion = [2, 0, 1]\<rparr> =
   Published
     [JObj [(''key'', JStr ''/works/A''), (''title'', JStr ''A''),
            (''number_of_pages_median'', JNum 100), (''description'', JStr ''No description available.'')],
      JObj [(''key'', JStr ''/works/B''), (''title'', JStr ''B'')],
      JObj [(''key'', JStr ''/works/C''), (''title'', JStr ''C''),
            (''number_of_pages_median'', JNum 100), (''description'', JStr ''No description available.'')]]"
proof -
  let ?docs = "[JObj [(''key'', JStr ''/works/A''), (''title'', JStr ''A'')],
         JObj [(''key'', JStr ''/works/B''), (''title'', JStr ''B'')],
         JObj [(''key'', JStr ''/works/C''), (''title'', JStr ''C'')]]"
  let ?data = "JObj [(''docs'', JArr ?docs)]"
  let ?net = "\<lparr>search = Some (Resolved ?data),
      detail = (\<lambda>i. if i = 1 then Rejected else Resolved (JObj [(''number_of_pages'', JNum 100)])),
      completion = []\<rparr>"
  have 1: "search ?net = Some (Resolved ?data)" by simp
  have 2: "get_prop ?data ''docs'' = Inr (JArr ?docs)" by simp
  have 3: "requests_settle [2, 0, 1] (take 10 ?docs)"
    by (simp add: requests_settle_def settled_at_once_def upt_rec)
  have 4: "[0..<min 10 (length ?docs)] = [0, 1, 2]" by (simp add: upt_rec)
  from fetch_order_preserved [OF 1 2 3, of "initial_state :: nat app_state"]
  show ?thesis
    unfolding 4
    by (simp add: enrich_def merge_details_def set_prop_def normalize_description_def
        js_or_def opt_prop_def no_description_def)
qed

text \<open>
  Claim C2 says that an item whose detail request failed is missing the page count
  and the description. The inner \<^verbatim>\<open>catch\<close> returns the summary as it is (line 49):
  a summary that carries \<^verbatim>\<open>number_of_pages_median\<close> and \<^verbatim>\<open>description\<close> of its
  own is published with both.
\<close>

theorem summary_fields_kept_counterexample:
  "run_pipeline
     \<lparr>search = Some (Resolved (JObj [(''docs'', JArr
        [JObj [(''key'', JStr ''/works/A''), (''title'', JStr ''A''),
               (''number_of_pages_median'', JNum 320), (''description'', JStr ''d'')]])])),
      detail = (\<lambda>i. Rejected), completion = [0]\<rparr>
   = Published
       [JObj [(''key'', JStr ''/works/A''), (''title'', JStr ''A''),
              (''number_of_pages_median'', JNum 320), (''description'', JStr ''d'')]]
   \<and> get_prop
        (JObj [(''key'', JStr ''/works/A''), (''title'', JStr ''A''),
               (''number_of_pages_median'', JNum 320), (''description'', JStr ''d'')])
        ''number_of_pages_median'' = Inr (JNum 320)
   \<and> get_prop
        (JObj [(''key'', JStr ''/works/A''), (''title'', JStr ''A''),
               (''number_of_pages_median'', JNum 320), (''description'', JStr ''d'')])
        ''description'' = Inr (JStr ''d'')"
  by (simp add: run_pipeline_def fetched_books_def promise_all_def settled_at_once_def enrich_def)

text \<open>
  Claim C2, amended. When the search resolves with \<open>N \<le> 10\<close> results and every
  request settles, the run ends in success with exactly \<open>N\<close> items, whatever
  number of detail requests was rejected. An item whose detail request was rejected
  is the search summary itself: nothing is added to it and nothing is taken from
  it, so its page count and description are those of the summary (none, when the
  summary has none), and its title, authors and first publish year are unchanged.
\<close>

theorem partial_enrichment:
  assumes "search net = Some (Resolved data)"
    and "get_prop data ''docs'' = Inr (JArr docs)"
    and "length docs \<le> 10"
    and "requests_settle (completion net) docs"
  shows "\<exists>out. run_pipeline net = Published out \<and> length out = length docs
      \<and> fetchBooks net s = s\<lparr>books := out, loading := False, error := None\<rparr>
      \<and> (\<forall>i<length docs. detail net i = Rejected \<longrightarrow>
            out ! i = docs ! i
          \<and> get_prop (out ! i) ''title'' = get_prop (docs ! i) ''title''
          \<and> get_prop (out ! i) ''author_name'' = get_prop (docs ! i) ''author_name''
          \<and> get_prop (out ! i) ''first_publish_year'' = get_prop (docs ! i) ''first_publish_year''
          \<and> get_prop (out ! i) ''number_of_pages_median'' = get_prop (docs ! i) ''number_of_pages_median''
          \<and> get_prop (out ! i) ''description'' = get_prop (docs ! i) ''description'')"
proof -
  let ?out = "map (\<lambda>i. enrich net i (docs ! i)) [0..<length docs]"
  have fb: "fetched_books data = Inr docs"
    using fetched_books_docs [OF assms(2)] assms(3) by simp
  have run: "run_pipeline net = Published ?out"
    using assms(1) fb assms(4) by (rule run_pipeline_published)
  then have st: "fetchBooks net s = s\<lparr>books := ?out, loading := False, error := None\<rparr>"
    by (simp add: fetchBooks_def fetchBooks_start_def)
  have "?out ! i = docs ! i" if "i < length docs" "detail net i = Rejected" for i
    using that by (simp add: enrich_rejected)
  with run st show ?thesis by (intro exI [of _ ?out]) simp
qed

text \<open>Two results; the detail request of the second is rejected.\<close>

theorem partial_enrichment_witness:
  "\<exists>out. run_pipeline
     \<lparr>search = Some (Resolved (JObj [(''docs'', JArr
        [JObj [(''key'', JStr ''/works/A''), (''title'', JStr ''A'')],
         JObj [(''key'', JStr ''/works/B''), (''title'', JStr ''B''),
               (''author_name'', JArr [JStr ''Ann'']), (''first_publish_year'', JNum 1999)]])])),
      detail = (\<lambda>i. if i = 1 then Rejected else Resolved (JObj [(''number_of_pages'', JNum 100)])),
      completion = [1, 0]\<rparr> = Published out
    \<and> length out = 2
    \<and> out ! 1 = JObj [(''key'', JStr ''/works/B''), (''title'', JStr ''B''),
               (''author_name'', JArr [JStr ''Ann'']), (''first_publish_year'', JNum 1999)]
    \<and> get_prop (out ! 1) ''title'' = Inr (JStr ''B'')
    \<and> get_prop (out ! 1) ''description'' = Inr JUndefined"
proof -
  let ?B = "JObj [(''key'', JStr ''/works/B''), (''title'', JStr ''B''),
               (''author_name'', JArr [JStr ''Ann'']), (''first_publish_year'', JNum 1999)]"
  let ?docs = "[JObj [(''key'', JStr ''/works/A''), (''title'', JStr ''A'')], ?B]"
  let ?data = "JObj [(''docs'', JArr ?docs)]"
  let ?net = "\<lparr>search = Some (Resolved ?data),
      detail = (\<lambda>i. if i = 1 then Rejected else Resolved (JObj [(''number_of_pages'', JNum 100)])),
      completion = [1, 0]\<rparr>"
  have 1: "search ?net = Some (Resolved ?data)" by simp
  have 2: "get_prop ?data ''docs'' = Inr (JArr ?docs)" by simp
  have 3: "length ?docs \<le> 10" by simp
  have 4: "requests_settle (completion ?net) ?docs"
    by (simp add: requests_settle_def settled_at_once_def upt_rec)
  from partial_enrichment [OF 1 2 3 4, of "initial_state :: nat app_state"]
  obtain out where out: "run_pipeline ?net = Published out" "length out = length ?docs"
    and rej: "\<forall>i<length ?docs. detail ?net i = Rejected \<longrightarrow> out ! i = ?docs ! i"
    by blast
  from rej have "out ! 1 = ?B" by simp
  with out show ?thesis by simp
qed

text \<open>
  Claim C4. When the search request is rejected the run fails: it sets the one
  generic error message and clears the loading flag, and publishes nothing, so the
  list rendered before stays as it was. The same holds of the final updates applied
  to any state \<open>t\<close> the component is in when the request fails.
\<close>

theorem search_failure_keeps_results:
  assumes "search net = Some Rejected"
  shows "run_pipeline net = Failed
      \<and> fetchBooks net s = s\<lparr>error := Some fetch_error_message, loading := False\<rparr>
      \<and> error (fetchBooks net s) = Some fetch_error_message
      \<and> books (fetchBooks net s) = books s
      \<and> books (fetchBooks_finish (run_pipeline net) t) = books t
      \<and> error (fetchBooks_finish (run_pipeline net) t) = Some fetch_error_message"
  using assms by (simp add: run_pipeline_def fetchBooks_def fetchBooks_start_def)

text \<open>A failing search while one book is on display.\<close>

theorem search_failure_keeps_results_witness:
  "fetchBooks \<lparr>search = Some Rejected, detail = (\<lambda>i. Rejected), completion = []\<rparr>
     ((initial_state :: nat app_state)\<lparr>genre := ''Horror'', year := ''2024'',
        books := [JObj [(''key'', JStr ''/works/A''), (''title'', JStr ''A'')]]\<rparr>)
   = (initial_state :: nat app_state)\<lparr>genre := ''Horror'', year := ''2024'',
        books := [JObj [(''key'', JStr ''/works/A''), (''title'', JStr ''A'')]],
        error := Some ''An error occurred while fetching books. Please try again.''\<rparr>"
proof -
  let ?net = "\<lparr>search = Some Rejected, detail = (\<lambda>i. Rejected), completion = []\<rparr>"
  let ?s = "(initial_state :: nat app_state)\<lparr>genre := ''Horror'', year := ''2024'',
        books := [JObj [(''key'', JStr ''/works/A''), (''title'', JStr ''A'')]]\<rparr>"
  have 1: "search ?net = Some Rejected" by simp
  from search_failure_keeps_results [OF 1, of ?s ?s]
  show ?thesis by (simp add: initial_state_def fetch_error_message_def)
qed

section \<open>Outcome of a run\<close>

lemma fetched_books_length: "fetched_books data = Inr bs \<Longrightarrow> length bs \<le> 10"
  by (auto simp: fetched_books_def split: sum.splits jsval.splits)

lemma run_pipeline_unsettled:
  assumes "\<not> network_settles net"
  shows "run_pipeline net = Unsettled"
proof (cases "search net")
  case None
  then show ?thesis by (simp add: run_pipeline_def)
next
  case (Some r)
  with assms obtain data bs where r: "r = Resolved data" and fb: "fetched_books data = Inr bs"
    and ns: "\<not> requests_settle (completion net) bs"
    by (auto simp: network_settles_def split: settled.splits sum.splits)
  let ?vs = "map (\<lambda>i. enrich net i (bs ! i)) [0..<length bs]"
  from ns obtain i where "i < length ?vs" "i \<notin> set (settled_at_once bs @ completion net)"
    by (auto simp: requests_settle_def list_all_iff)
  then have "promise_all (settled_at_once bs @ completion net) ?vs = None"
    by (rule promise_all_pending)
  with Some r fb show ?thesis by (simp add: run_pipeline_def)
qed

lemma fetchBooks_stays_loading: "\<not> network_settles net \<Longrightarrow> loading (fetchBooks net s)"
  by (simp add: run_pipeline_unsettled fetchBooks_def fetchBooks_start_def)

text \<open>
  Claim C5 says that a fetch ends in a populated list or in an error state. With
  both fields set, a search that resolves with no results ends in neither: the
  list is empty and there is no error.
\<close>

theorem empty_search_counterexample:
  "books (fetchBooks
       \<lparr>search = Some (Resolved (JObj [(''docs'', JArr [])])), detail = (\<lambda>i. Rejected), completion = []\<rparr>
       ((initial_state :: nat app_state)\<lparr>genre := ''Horror'', year := ''2024''\<rparr>)) = []
   \<and> error (fetchBooks
       \<lparr>search = Some (Resolved (JObj [(''docs'', JArr [])])), detail = (\<lambda>i. Rejected), completion = []\<rparr>
       ((initial_state :: nat app_state)\<lparr>genre := ''Horror'', year := ''2024''\<rparr>)) = None"
  by (simp add: fetchBooks_def fetchBooks_start_def run_pipeline_def fetched_books_def
      promise_all_def settled_at_once_def initial_state_def)

text \<open>
  Claim C5, amended. Under normal network conditions a run, executed on its own
  from any state, ends with the loading flag cleared and in exactly one of two
  ways: it publishes a list of at most 10 items (which may be empty) and there is
  no error, or it sets the error and publishes nothing. The final updates clear the
  loading flag in whatever state \<open>t\<close> they are applied.
\<close>

theorem fetch_outcome_exclusive:
  assumes "network_settles net"
  shows "\<not> loading (fetchBooks net s)
      \<and> \<not> loading (fetchBooks_finish (run_pipeline net) t)
      \<and> ((\<exists>bs. run_pipeline net = Published bs \<and> length bs \<le> 10
              \<and> fetchBooks net s = s\<lparr>books := bs, loading := False, error := None\<rparr>)
         \<or> (run_pipeline net = Failed
              \<and> fetchBooks net s = s\<lparr>error := Some fetch_error_message, loading := False\<rparr>))"
proof -
  from assms obtain r where r: "search net = Some r"
    by (auto simp: network_settles_def split: option.splits)
  show ?thesis
  proof (cases r)
    case Rejected
    with r show ?thesis by (simp add: run_pipeline_def fetchBooks_def fetchBooks_start_def)
  next
    case (Resolved data)
    show ?thesis
    proof (cases "fetched_books data")
      case (Inl e)
      with r Resolved show ?thesis
        by (simp add: run_pipeline_def fetchBooks_def fetchBooks_start_def)
    next
      case (Inr bs)
      with assms r Resolved have "requests_settle (completion net) bs"
        by (simp add: network_settles_def)
      with r Resolved Inr
      have "run_pipeline net = Published (map (\<lambda>i. enrich net i (bs ! i)) [0..<length bs])"
        by (intro run_pipeline_published) simp_all
      with fetched_books_length [OF Inr] show ?thesis
        by (simp add: fetchBooks_def fetchBooks_start_def)
    qed
  qed
qed

text \<open>One result whose detail request is rejected.\<close>

theorem fetch_outcome_exclusive_witness:
  "fetchBooks
     \<lparr>search = Some (Resolved (JObj [(''docs'', JArr [JObj [(''key'', JStr ''/works/A'')]])])),
      detail = (\<lambda>i. Rejected), completion = [0]\<rparr>
     ((initial_state :: nat app_state)\<lparr>genre := ''Horror'', year := ''2024''\<rparr>)
   = (initial_state :: nat app_state)\<lparr>genre := ''Horror'', year := ''2024'',
        books := [JObj [(''key'', JStr ''/works/A'')]]\<rparr>
   \<and> \<not> loading (fetchBooks
     \<lparr>search = Some (Resolved (JObj [(''docs'', JArr [JObj [(''key'', JStr ''/works/A'')]])])),
      detail = (\<lambda>i. Rejected), completion = [0]\<rparr>
     ((initial_state :: nat app_state)\<lparr>genre := ''Horror'', year := ''2024''\<rparr>))"
proof -
  let ?net = "\<lparr>search = Some (Resolved (JObj [(''docs'', JArr [JObj [(''key'', JStr ''/works/A'')]])])),
      detail = (\<lambda>i. Rejected), completion = [0]\<rparr>"
  let ?s = "(initial_state :: nat app_state)\<lparr>genre := ''Horror'', year := ''2024''\<rparr>"
  have 1: "network_settles ?net"
    by (simp add: network_settles_def fetched_books_def requests_settle_def settled_at_once_def)
  have 2: "run_pipeline ?net = Published [JObj [(''key'', JStr ''/works/A'')]]"
    by (simp add: run_pipeline_def fetched_books_def promise_all_def settled_at_once_def enrich_def)
  from fetch_outcome_exclusive [OF 1, of ?s ?s] 2
  show ?thesis by (simp add: initial_state_def)
qed

text \<open>
  Claim C10 says that the error state is none after any successful run. Runs are
  not cancelled and may overlap: run A starts, run B starts, the search of B is
  rejected, then A publishes its list. A was successful and the error of B is on
  display after it.
\<close>

theorem overlapping_runs_counterexample:
  "run_pipeline
     \<lparr>search = Some (Resolved (JObj [(''docs'', JArr [])])), detail = (\<lambda>i. Rejected), completion = []\<rparr>
     = Published []
   \<and> run_pipeline \<lparr>search = Some Rejected, detail = (\<lambda>i. Rejected), completion = []\<rparr> = Failed
   \<and> error
       (fetchBooks_finish
          (run_pipeline
             \<lparr>search = Some (Resolved (JObj [(''docs'', JArr [])])), detail = (\<lambda>i. Rejected),
              completion = []\<rparr>)
          (fetchBooks_finish
             (run_pipeline \<lparr>search = Some Rejected, detail = (\<lambda>i. Rejected), completion = []\<rparr>)
             (fetchBooks_start (fetchBooks_start (initial_state :: nat app_state)))))
     = Some ''An error occurred while fetching books. Please try again.''"
  by (simp add: fetchBooks_start_def run_pipeline_def fetched_books_def
      promise_all_def settled_at_once_def initial_state_def fetch_error_message_def)

text \<open>
  Claim C10, amended. Every run clears the error when it starts, before any request
  settles. A successful run never sets the error: it leaves the error of the state
  it finishes in as it is, so the error is none after a successful run that was
  executed on its own.
\<close>

theorem fetch_start_clears_error:
  "error (fetchBooks_start s) = None
   \<and> (run_pipeline net = Published bs \<longrightarrow> error (fetchBooks net s) = None)
   \<and> error (fetchBooks_finish (Published bs) t) = error t"
  by (simp add: fetchBooks_def fetchBooks_start_def)

text \<open>A fetch that starts while the error message is on display.\<close>

theorem fetch_start_clears_error_witness:
  "error (fetchBooks_start ((initial_state :: nat app_state)\<lparr>error := Some ''An error occurred while fetching books. Please try again.''\<rparr>)) = None
   \<and> error (fetchBooks
        \<lparr>search = Some (Resolved (JObj [(''docs'', JArr [])])), detail = (\<lambda>i. Rejected), completion = []\<rparr>
        ((initial_state :: nat app_state)\<lparr>error := Some ''An error occurred while fetching books. Please try again.''\<rparr>)) = None"
proof -
  let ?net = "\<lparr>search = Some (Resolved (JObj [(''docs'', JArr [])])), detail = (\<lambda>i. Rejected), completion = []\<rparr>"
  let ?s = "(initial_state :: nat app_state)\<lparr>error := Some ''An error occurred while fetching books. Please try again.''\<rparr>"
  have 1: "run_pipeline ?net = Published []"
    by (simp add: run_pipeline_def fetched_books_def promise_all_def settled_at_once_def)
  from fetch_start_clears_error [of ?s ?net "[]" ?s] 1 show ?thesis by simp
qed

section \<open>Selection\<close>

text \<open>
  Claim C6 says that toggling the same book twice returns to the unselected state
  and that toggle is an involution. With book 2 selected, two clicks on book 1 end
  with nothing selected, which is not the state they started from; with book 1
  selected, two clicks on book 1 end with book 1 selected.
\<close>

theorem toggle_twice_counterexample:
  "handleBookClick (1::nat) (handleBookClick 1 (initial_state\<lparr>selectedBook := Some 2\<rparr>))
     = initial_state\<lparr>selectedBook := None\<rparr>
   \<and> handleBookClick (1::nat) (handleBookClick 1 (initial_state\<lparr>selectedBook := Some 2\<rparr>))
     \<noteq> initial_state\<lparr>selectedBook := Some 2\<rparr>
   \<and> selectedBook (handleBookClick (1::nat) (handleBookClick 1 (initial_state\<lparr>selectedBook := Some 1\<rparr>)))
     = Some 1"
  by (simp add: handleBookClick_def initial_state_def)

text \<open>
  Claim C6, amended. A click on \<open>b\<close> deselects when \<open>b\<close> is selected and selects
  \<open>b\<close> otherwise. Two clicks on \<open>b\<close> end with nothing selected when \<open>b\<close> was
  not selected before, and give back the starting state when it had nothing or
  \<open>b\<close> selected. A click on \<open>b\<close> while another book is selected moves the
  selection to \<open>b\<close>. At most one book is selected in any state.
\<close>

theorem toggle_selection:
  "selectedBook (handleBookClick b s) = (if is_selected b s then None else Some b)
   \<and> (\<not> is_selected b s \<longrightarrow> selectedBook (handleBookClick b (handleBookClick b s)) = None)
   \<and> (selectedBook s = None \<or> is_selected b s \<longrightarrow> handleBookClick b (handleBookClick b s) = s)
   \<and> (is_selected c s \<and> c \<noteq> b \<longrightarrow>
        is_selected b (handleBookClick b s) \<and> \<not> is_selected c (handleBookClick b s))
   \<and> (is_selected x t \<and> is_selected y t \<longrightarrow> x = y)"
  by (auto simp: handleBookClick_def is_selected_def)

text \<open>Clicks on book 1 with nothing, book 2 and book 1 selected.\<close>

theorem toggle_selection_witness:
  "selectedBook (handleBookClick (1::nat) initial_state) = Some 1
   \<and> handleBookClick (1::nat) (handleBookClick 1 initial_state) = initial_state
   \<and> selectedBook (handleBookClick (1::nat) (initial_state\<lparr>selectedBook := Some 2\<rparr>)) = Some 1
   \<and> selectedBook (handleBookClick (1::nat) (initial_state\<lparr>selectedBook := Some 1\<rparr>)) = None"
  using toggle_selection [where b = "1::nat" and s = initial_state and c = 2 and x = 1 and y = 1
      and t = initial_state]
    toggle_selection [where b = "1::nat" and s = "initial_state\<lparr>selectedBook := Some 2\<rparr>" and c = 2
      and x = 1 and y = 1 and t = initial_state]
    toggle_selection [where b = "1::nat" and s = "initial_state\<lparr>selectedBook := Some 1\<rparr>" and c = 2
      and x = 1 and y = 1 and t = initial_state]
  by (simp add: is_selected_def initial_state_def)

section \<open>Triggering a fetch\<close>

text \<open>
  Claim C8 says that every mutation of the input state that leaves both fields
  non-empty triggers a fetch. With \<^verbatim>\<open>Fantasy\<close> typed in the genre field and a year
  set, choosing the suggestion \<^verbatim>\<open>Fantasy\<close> clears the suggestions and leaves both
  fields non-empty, but neither dependency of the effect has changed and no fetch
  starts.
\<close>

theorem same_value_selection_counterexample:
  "genre (handle 2026 (SelectGenre ''Fantasy'')
       ((initial_state :: nat app_state)\<lparr>genre := ''Fantasy'', year := ''2024'', genreSuggestions := [''Fantasy'']\<rparr>))
     = ''Fantasy''
   \<and> year (handle 2026 (SelectGenre ''Fantasy'')
       ((initial_state :: nat app_state)\<lparr>genre := ''Fantasy'', year := ''2024'', genreSuggestions := [''Fantasy'']\<rparr>))
     = ''2024''
   \<and> \<not> fetch_triggered 2026 (SelectGenre ''Fantasy'')
       ((initial_state :: nat app_state)\<lparr>genre := ''Fantasy'', year := ''2024'', genreSuggestions := [''Fantasy'']\<rparr>)"
  by (simp add: fetch_triggered_def effect_fetches_def selectGenre_def initial_state_def)

text \<open>
  Claim C8, amended. An event that changes the genre or the year and leaves both
  non-empty triggers a fetch; an event other than a submit that leaves the genre
  and the year as they were triggers none; and the submit button triggers one
  whatever the fields hold.
\<close>

theorem fetch_trigger:
  "(genre (handle cy ev s) \<noteq> [] \<and> year (handle cy ev s) \<noteq> []
      \<and> (genre (handle cy ev s) \<noteq> genre s \<or> year (handle cy ev s) \<noteq> year s)
     \<longrightarrow> fetch_triggered cy ev s)
   \<and> (ev \<noteq> Submit \<and> genre (handle cy ev s) = genre s \<and> year (handle cy ev s) = year s
     \<longrightarrow> \<not> fetch_triggered cy ev s)
   \<and> fetch_triggered cy Submit s"
  by (cases ev) (simp_all add: fetch_triggered_def effect_fetches_def)

text \<open>Choosing a genre suggestion when the year is set; submitting with both fields empty.\<close>

theorem fetch_trigger_witness:
  "genre (handle 2026 (SelectGenre ''Fantasy'') ((initial_state :: nat app_state)\<lparr>year := ''2024''\<rparr>)) = ''Fantasy''
   \<and> year (handle 2026 (SelectGenre ''Fantasy'') ((initial_state :: nat app_state)\<lparr>year := ''2024''\<rparr>)) = ''2024''
   \<and> fetch_triggered 2026 (SelectGenre ''Fantasy'') ((initial_state :: nat app_state)\<lparr>year := ''2024''\<rparr>)
   \<and> fetch_triggered 2026 Submit (initial_state :: nat app_state)"
  using fetch_trigger [of 2026 "SelectGenre ''Fantasy''" "(initial_state :: nat app_state)\<lparr>year := ''2024''\<rparr>"]
    fetch_trigger [of 2026 Submit "initial_state :: nat app_state"]
  by (simp add: selectGenre_def initial_state_def)

section \<open>Suggestions\<close>

lemma includes_str_iff:
  "includes_str s t \<longleftrightarrow> (\<exists>i\<le>length s. take (length t) (drop i s) = t)"
proof (induction s)
  case Nil
  show ?case by auto
next
  case (Cons c cs)
  have "(\<exists>i\<le>length (c # cs). take (length t) (drop i (c # cs)) = t) \<longleftrightarrow>
        take (length t) (c # cs) = t \<or> (\<exists>j\<le>length cs. take (length t) (drop j cs) = t)"
  proof
    assume "\<exists>i\<le>length (c # cs). take (length t) (drop i (c # cs)) = t"
    then obtain i where i: "i \<le> length (c # cs)" "take (length t) (drop i (c # cs)) = t" by blast
    show "take (length t) (c # cs) = t \<or> (\<exists>j\<le>length cs. take (length t) (drop j cs) = t)"
    proof (cases i)
      case 0
      with i show ?thesis by simp
    next
      case (Suc j)
      with i have "j \<le> length cs" "take (length t) (drop j cs) = t" by simp_all
      then show ?thesis by blast
    qed
  next
    assume "take (length t) (c # cs) = t \<or> (\<exists>j\<le>length cs. take (length t) (drop j cs) = t)"
    then show "\<exists>i\<le>length (c # cs). take (length t) (drop i (c # cs)) = t"
    proof
      assume "take (length t) (c # cs) = t"
      then have "0 \<le> length (c # cs) \<and> take (length t) (drop 0 (c # cs)) = t" by simp
      then show ?thesis by blast
    next
      assume "\<exists>j\<le>length cs. take (length t) (drop j cs) = t"
      then obtain j where "j \<le> length cs" "take (length t) (drop j cs) = t" by blast
      then have "Suc j \<le> length (c # cs) \<and> take (length t) (drop (Suc j) (c # cs)) = t" by simp
      then show ?thesis by blast
    qed
  qed
  with Cons.IH show ?case by simp
qed

lemma includes_str_subset: "includes_str s t \<Longrightarrow> set t \<subseteq> set s"
proof -
  assume "includes_str s t"
  then obtain i where "take (length t) (drop i s) = t" by (auto simp: includes_str_iff)
  then have "set t = set (take (length t) (drop i s))" by simp
  also have "\<dots> \<subseteq> set (drop i s)" by (rule set_take_subset)
  also have "\<dots> \<subseteq> set s" by (rule set_drop_subset)
  finally show ?thesis .
qed

lemma of_char_lower_char:
  "(of_char (lower_char c) :: nat) =
     (if 65 \<le> (of_char c :: nat) \<and> (of_char c :: nat) \<le> 90 then of_char c + 32 else of_char c)"
  by (simp add: lower_char_def Let_def)

lemma lower_char_eq_iff: "lower_char a = lower_char b \<longleftrightarrow> same_letter a b"
proof -
  have ab: "a = b \<longleftrightarrow> (of_char a :: nat) = of_char b" by simp
  have "lower_char a = lower_char b \<longleftrightarrow> (of_char (lower_char a) :: nat) = of_char (lower_char b)"
    by simp
  also have "\<dots> \<longleftrightarrow> same_letter a b"
    unfolding of_char_lower_char same_letter_def Let_def ab by auto
  finally show ?thesis .
qed

lemma toLowerCase_eq_iff:
  "toLowerCase xs = toLowerCase ys \<longleftrightarrow> list_all2 same_letter xs ys"
proof -
  have "toLowerCase xs = toLowerCase ys \<longleftrightarrow> list_all2 (=) (map lower_char xs) (map lower_char ys)"
    by (simp add: toLowerCase_def list.rel_eq)
  also have "\<dots> \<longleftrightarrow> list_all2 (\<lambda>x y. lower_char x = lower_char y) xs ys"
    by (simp add: list.rel_map)
  finally show ?thesis by (simp add: lower_char_eq_iff)
qed

lemma ci_substring_spec_iff:
  "ci_substring_spec text cand \<longleftrightarrow> includes_str (toLowerCase cand) (toLowerCase text)"
proof -
  have win: "take (length (toLowerCase text)) (drop i (toLowerCase cand)) =
      toLowerCase (take (length text) (drop i cand))" for i
    by (simp add: toLowerCase_def take_map drop_map)
  have "ci_substring_spec text cand \<longleftrightarrow>
      (\<exists>i\<le>length cand. list_all2 same_letter text (take (length text) (drop i cand)))"
    unfolding ci_substring_spec_def list_ex_iff set_upt Bex_def atLeastLessThan_iff
    by (simp add: less_Suc_eq_le)
  also have "\<dots> \<longleftrightarrow> (\<exists>i\<le>length cand. toLowerCase (take (length text) (drop i cand)) = toLowerCase text)"
    by (simp add: toLowerCase_eq_iff [symmetric] eq_commute)
  also have "\<dots> \<longleftrightarrow> (\<exists>i\<le>length (toLowerCase cand).
      take (length (toLowerCase text)) (drop i (toLowerCase cand)) = toLowerCase text)"
    unfolding win by (simp add: toLowerCase_def)
  also have "\<dots> \<longleftrightarrow> includes_str (toLowerCase cand) (toLowerCase text)"
    by (simp add: includes_str_iff)
  finally show ?thesis .
qed

lemma caseless_lower: "caseless c \<Longrightarrow> lower_char c = c"
  by (auto simp: caseless_def lower_char_def Let_def)

lemma lower_caseless: "caseless (lower_char c) \<Longrightarrow> lower_char c = c"
  by (auto simp: caseless_def lower_char_def Let_def split: if_splits)

lemma includes_str_caseless:
  assumes "\<forall>c\<in>set s. caseless c"
  shows "includes_str s (toLowerCase t) \<longleftrightarrow> includes_str s t"
proof
  assume "includes_str s (toLowerCase t)"
  then have "set (toLowerCase t) \<subseteq> set s" by (rule includes_str_subset)
  with assms have "\<forall>c\<in>set t. caseless (lower_char c)" by (auto simp: toLowerCase_def)
  then have "map lower_char t = t" by (intro map_idI) (simp add: lower_caseless)
  then have "toLowerCase t = t" by (simp add: toLowerCase_def)
  with \<open>includes_str s (toLowerCase t)\<close> show "includes_str s t" by simp
next
  assume "includes_str s t"
  then have "set t \<subseteq> set s" by (rule includes_str_subset)
  with assms have "\<forall>c\<in>set t. caseless c" by auto
  then have "map lower_char t = t" by (intro map_idI) (simp add: caseless_lower)
  then have "toLowerCase t = t" by (simp add: toLowerCase_def)
  with \<open>includes_str s t\<close> show "includes_str s (toLowerCase t)" by simp
qed

lemma toString_caseless: "c \<in> set (toString y) \<Longrightarrow> caseless c"
  using nat_toString_digits [of c]
  by (auto simp: toString_def caseless_def Let_def split: if_splits)

lemma year_includes_iff:
  "includes_str (toString y) v \<longleftrightarrow> ci_substring_spec v (toString y)"
proof -
  have "map lower_char (toString y) = toString y"
    by (intro map_idI) (simp add: toString_caseless caseless_lower)
  then have "toLowerCase (toString y) = toString y" by (simp add: toLowerCase_def)
  then show ?thesis
    using includes_str_caseless [of "toString y" v]
    by (simp add: ci_substring_spec_iff toString_caseless)
qed

lemma recentYears_enum:
  "recentYears cy = [cy, cy - 1, cy - 2, cy - 3, cy - 4, cy - 5, cy - 6, cy - 7, cy - 8, cy - 9]"
  by (simp add: recentYears_def upt_rec)

text \<open>
  Claim C7. Typing \<open>v\<close> in the genre or the year field sets the field to \<open>v\<close>, and
  the suggestions become the candidates (the curated genres; the ten years from
  the current one backwards, in decimal) of which \<open>v\<close> is a case-insensitive
  substring, in the order of the candidate list, and none when \<open>v\<close> is empty.
  Choosing a suggestion sets the field to the suggestion (a year in decimal) and
  empties the suggestions of that field.
\<close>

theorem suggestions_filtered:
  "genre (handleGenreChange v s) = v
   \<and> genreSuggestions (handleGenreChange v s) =
       (if v = [] then [] else filter (ci_substring_spec v) popularGenres)
   \<and> year (handleYearChange cy v s) = v
   \<and> yearSuggestions (handleYearChange cy v s) =
       (if v = [] then []
        else filter (\<lambda>y. ci_substring_spec v (toString y))
               [cy, cy - 1, cy - 2, cy - 3, cy - 4, cy - 5, cy - 6, cy - 7, cy - 8, cy - 9])
   \<and> genre (selectGenre g s) = g \<and> genreSuggestions (selectGenre g s) = []
   \<and> year (selectYear y s) = toString y \<and> yearSuggestions (selectYear y s) = []"
proof -
  have "filter (\<lambda>g. includes_str (toLowerCase g) (toLowerCase v)) popularGenres =
      filter (ci_substring_spec v) popularGenres"
    by (rule filter_cong) (simp_all add: ci_substring_spec_iff)
  moreover have "filter (\<lambda>y. includes_str (toString y) v) (recentYears cy) =
      filter (\<lambda>y. ci_substring_spec v (toString y))
        [cy, cy - 1, cy - 2, cy - 3, cy - 4, cy - 5, cy - 6, cy - 7, cy - 8, cy - 9]"
    unfolding recentYears_enum by (simp only: year_includes_iff)
  ultimately show ?thesis
    by (simp add: handleGenreChange_def handleYearChange_def selectGenre_def selectYear_def)
qed

text \<open>
  Typing \<^verbatim>\<open>fan\<close> suggests \<^verbatim>\<open>Fantasy\<close>; typing \<^verbatim>\<open>19\<close> in 2026 suggests 2019.
\<close>

theorem suggestions_filtered_witness:
  "genreSuggestions (handleGenreChange ''fan'' (initial_state :: nat app_state)) = [''Fantasy'']
   \<and> filter (ci_substring_spec ''fan'') popularGenres = [''Fantasy'']
   \<and> yearSuggestions (handleYearChange 2026 ''19'' (initial_state :: nat app_state)) = [2019]
   \<and> filter (\<lambda>y. ci_substring_spec ''19'' (toString y))
        [2026, 2025, 2024, 2023, 2022, 2021, 2020, 2019, 2018, 2017] = [2019]
   \<and> genreSuggestions (handleGenreChange [] (initial_state :: nat app_state)) = []
   \<and> year (selectYear 2019 (initial_state :: nat app_state)) = ''2019''"
proof -
  let ?s = "initial_state :: nat app_state"
  have g: "genreSuggestions (handleGenreChange ''fan'' ?s) = [''Fantasy'']"
    by (simp add: handleGenreChange_def initial_state_def popularGenres_def toLowerCase_def
        lower_char_def char_of_eq_iff)
  have y: "yearSuggestions (handleYearChange 2026 ''19'' ?s) = [2019]"
    by (simp add: handleYearChange_def initial_state_def recentYears_def upt_rec toString_def
        nat_toString.simps digit_char_def char_of_eq_iff)
  have t: "toString 2019 = ''2019''"
    by (simp add: toString_def nat_toString.simps digit_char_def char_of_eq_iff)
  from suggestions_filtered [of "''fan''" ?s 2026 "''Fantasy''" 2019]
  have 1: "genreSuggestions (handleGenreChange ''fan'' ?s) = filter (ci_substring_spec ''fan'') popularGenres"
    by simp
  from suggestions_filtered [of "''19''" ?s 2026 "''Fantasy''" 2019]
  have 2: "yearSuggestions (handleYearChange 2026 ''19'' ?s) =
      filter (\<lambda>y. ci_substring_spec ''19'' (toString y))
        [2026, 2025, 2024, 2023, 2022, 2021, 2020, 2019, 2018, 2017]"
    and 3: "year (selectYear 2019 ?s) = toString 2019"
    by simp_all
  from suggestions_filtered [of "[]" ?s 2026 "''Fantasy''" 2019]
  have 4: "genreSuggestions (handleGenreChange [] ?s) = []" by simp
  from g y t 1 2 3 4 show ?thesis by simp
qed

end
